theory Spec2Isabelle
  imports Complex_Main "HOL-Library.Word" "HOL-Library.Sublist"
begin

section \<open>Data model of record.py\<close>

text \<open>
  Python \<open>bytes\<close> are lists of 8-bit words. A Python \<open>str\<close> is a list of Unicode code
  points. Clock readings (\<open>time.time()\<close>) are reals: the rounding of floating point is not
  part of the model, the arithmetic on readings is exact.
\<close>

type_synonym byte = "8 word"
type_synonym bytes = "byte list"
type_synonym pystr = "nat list"

datatype error = TypeError | UnicodeDecodeError | SerialException | AttributeError | CanError | DecodeError

text \<open>A call into a driver either raises or returns.\<close>

datatype 'a io_result = Raises | Returns 'a

text \<open>The constant \<open>NULL_CNT\<close> of line 10.\<close>

definition NULL_CNT :: nat where
  "NULL_CNT = 500000"

text \<open>The dictionary built by \<open>save_message\<close>: keys "timestamp", "type" and "data"
  (the fields carry a prefix, \<open>data\<close> and \<open>timestamp\<close> being variables of the functions below).\<close>

record message =
  msg_timestamp :: real
  msg_type :: string
  msg_data :: pystr

subsection \<open>The builtins \<open>bytes.hex\<close> and \<open>bytes.decode\<close>\<close>

text \<open>
  \<open>bytes.hex()\<close> writes two lowercase hexadecimal digits per byte; \<open>hex_digit\<close> gives the
  code point of a digit (\<open>'0'\<close> is 48, \<open>'a'\<close> is 97).
\<close>

definition hex_digit :: "nat \<Rightarrow> nat" where
  "hex_digit n = (if n < 10 then 48 + n else 87 + n)"

definition hex :: "bytes \<Rightarrow> pystr" where
  "hex res = concat (map (\<lambda>b. [hex_digit (unat b div 16), hex_digit (unat b mod 16)]) res)"

text \<open>
  \<open>bytes.decode()\<close> is the strict UTF-8 decoder: it accepts exactly the well-formed byte
  sequences (no overlong form, no surrogate, nothing above U+10FFFF) and raises
  \<open>UnicodeDecodeError\<close> on anything else. \<open>utf8 need cp lo hi\<close> reads the bytes one at a
  time: \<open>need\<close> continuation bytes are still expected for the code point \<open>cp\<close> under
  construction, and the next continuation byte must lie in \<open>lo..hi\<close>.
\<close>

fun utf8 :: "nat \<Rightarrow> nat \<Rightarrow> nat \<Rightarrow> nat \<Rightarrow> bytes \<Rightarrow> pystr option" where
  "utf8 need cp lo hi [] = (if need = 0 then Some [] else None)"
| "utf8 need cp lo hi (b # bs) =
     (let v = unat b in
      if need = 0 then
        (if v < 0x80 then map_option ((#) v) (utf8 0 0 0x80 0xBF bs)
         else if 0xC2 \<le> v \<and> v \<le> 0xDF then utf8 1 (v - 0xC0) 0x80 0xBF bs
         else if v = 0xE0 then utf8 2 (v - 0xE0) 0xA0 0xBF bs
         else if (0xE1 \<le> v \<and> v \<le> 0xEC) \<or> v = 0xEE \<or> v = 0xEF then utf8 2 (v - 0xE0) 0x80 0xBF bs
         else if v = 0xED then utf8 2 (v - 0xE0) 0x80 0x9F bs
         else if v = 0xF0 then utf8 3 (v - 0xF0) 0x90 0xBF bs
         else if 0xF1 \<le> v \<and> v \<le> 0xF3 then utf8 3 (v - 0xF0) 0x80 0xBF bs
         else if v = 0xF4 then utf8 3 (v - 0xF0) 0x80 0x8F bs
         else None)
      else if lo \<le> v \<and> v \<le> hi then
        (let cp' = cp * 64 + (v - 0x80) in
         if need = 1 then map_option ((#) cp') (utf8 0 0 0x80 0xBF bs)
         else utf8 (need - 1) cp' 0x80 0xBF bs)
      else None)"

definition decode :: "bytes \<Rightarrow> pystr option" where
  "decode res = utf8 0 0 0x80 0xBF res"

subsection \<open>\<open>save_message\<close> and \<open>write_to_file\<close>\<close>

text \<open>
  Line 35, the only expression of the \<open>try\<close> block that can raise: the "data" entry is
  \<open>res.hex()\<close> for the types "UBX" and "Unknown" and \<open>res.decode()\<close> otherwise.
\<close>

definition data_entry :: "bytes \<Rightarrow> string \<Rightarrow> error + pystr" where
  "data_entry res message_type =
     (if message_type \<in> set [''UBX'', ''Unknown''] then Inr (hex res)
      else (case decode res of None \<Rightarrow> Inl UnicodeDecodeError | Some s \<Rightarrow> Inr s))"

text \<open>
  \<open>save_message\<close> (lines 20-45). When the dictionary is built, the \<open>try\<close> block appends it
  (line 37) and the \<open>finally\<close> block appends it again (line 45). When line 35 raises, the
  \<open>except\<close> block builds the "Unknown" dictionary and only the \<open>finally\<close> block appends.
\<close>

definition save_message :: "message list \<Rightarrow> bytes \<Rightarrow> real \<Rightarrow> string \<Rightarrow> message list" where
  "save_message messages res ts message_type =
     (case data_entry res message_type of
        Inr d \<Rightarrow>
          (let dict = \<lparr>msg_timestamp = ts, msg_type = message_type, msg_data = d\<rparr>
           in (messages @ [dict]) @ [dict])
      | Inl _ \<Rightarrow>
          (let dict = \<lparr>msg_timestamp = ts, msg_type = ''Unknown'', msg_data = hex res\<rparr>
           in messages @ [dict]))"

text \<open>
  \<open>write_to_file\<close> (lines 47-59) serialises the whole deque into the file, which
  \<open>setup_file\<close> has truncated: the result is the content of the file, as the list of
  dictionaries that \<open>json.dumps\<close> receives.
\<close>

definition write_to_file :: "'a list \<Rightarrow> 'a list" where
  "write_to_file messages = messages"

section \<open>\<open>read_serial\<close>\<close>

text \<open>The local variables of \<open>read_serial\<close> that the loop reads and writes (lines 136-145).\<close>

record state =
  messages :: "message list"
  queue :: bytes
  ubx_flag :: bool
  ubx_timestamp :: "real option"
  nmea_timestamp :: "real option"
  unknown_timestamp :: "real option"
  previous_data :: bytes
  null_cnt :: nat

definition init :: state where
  "init = \<lparr>messages = [], queue = [], ubx_flag = False, ubx_timestamp = None,
           nmea_timestamp = None, unknown_timestamp = None, previous_data = [], null_cnt = 0\<rparr>"

text \<open>
  What one pass of the loop takes from its environment: the result of \<open>ser.read(size=1)\<close>
  (a raise of the driver, a \<open>SerialException\<close>, or the bytes read, none when the port
  has nothing), the reading of
  \<open>time.time()\<close> in a boundary branch (lines 174, 185, 193), the reading of line 197 and the
  value of \<open>TERMINATOR_FLAG\<close> at line 198.
\<close>

record serial_io =
  ser_read :: "bytes io_result"
  time_stamp :: real
  time_check :: real
  terminator :: bool

text \<open>
  How a loop is left: the stall \<open>break\<close> of line 161, the \<open>break\<close> on the deadline or
  the flag (lines 199 and 116), the \<open>break\<close> of line 113 in \<open>read_CAN_bus\<close>, an exception.
\<close>

datatype stop = Stalled | Ended | Expired | Raised error

datatype 's outcome = Running 's | Stopped stop 's

fun final :: "'s outcome \<Rightarrow> 's" where
  "final (Running s) = s"
| "final (Stopped r s) = s"

fun is_running :: "'s outcome \<Rightarrow> bool" where
  "is_running (Running s) = True"
| "is_running (Stopped r s) = False"

text \<open>\<open>ts - flat_time\<close> on a timestamp that may still be \<open>None\<close>: Python raises \<open>TypeError\<close>.\<close>

definition sub_ts :: "real option \<Rightarrow> real \<Rightarrow> error + real" where
  "sub_ts ts flat_time = (case ts of None \<Rightarrow> Inl TypeError | Some v \<Rightarrow> Inr (v - flat_time))"

text \<open>
  Lines 170-173 and, word for word, lines 188-191: the frame that is open when a new one
  starts is closed. \<open>queue[:-1]\<close> is \<open>butlast\<close>. The subtraction is an argument of the call,
  so a \<open>TypeError\<close> leaves \<open>messages\<close> untouched.
\<close>

definition close_pending :: "real \<Rightarrow> state \<Rightarrow> error + message list" where
  "close_pending flat_time s =
     (if ubx_flag s then
        (case sub_ts (ubx_timestamp s) flat_time of
           Inl e \<Rightarrow> Inl e
         | Inr ts \<Rightarrow> Inr (save_message (messages s) (butlast (queue s)) ts ''UBX''))
      else if int (length (queue s)) - 1 > 0 then
        (case sub_ts (unknown_timestamp s) flat_time of
           Inl e \<Rightarrow> Inl e
         | Inr ts \<Rightarrow> Inr (save_message (messages s) (butlast (queue s)) ts ''Unknown''))
      else Inr (messages s))"

text \<open>
  Lines 167-196, the classification of the two-byte window: \<open>$G\<close> is \<open>24 47\<close>, carriage
  return and line feed are \<open>0D 0A\<close>, the binary sync pattern is \<open>B5 62\<close>.
\<close>

definition classify :: "real \<Rightarrow> state \<Rightarrow> bytes \<Rightarrow> real \<Rightarrow> error + state" where
  "classify flat_time s data now =
     (let last_two_bytes = previous_data s @ data in
      if last_two_bytes = [0x24, 0x47] then
        (case close_pending flat_time s of
           Inl e \<Rightarrow> Inl e
         | Inr ms \<Rightarrow> Inr (s\<lparr>messages := ms, nmea_timestamp := Some (now * 1000000),
                             queue := last_two_bytes, ubx_flag := False\<rparr>))
      else if last_two_bytes = [0x0D, 0x0A] then
        (if \<not> ubx_flag s then
           (case sub_ts (nmea_timestamp s) flat_time of
              Inl e \<Rightarrow> Inl e
            | Inr ts \<Rightarrow> Inr (s\<lparr>messages := save_message (messages s) (queue s @ [0x0A]) ts ''NMEA'',
                                 queue := [], unknown_timestamp := Some (now * 1000000)\<rparr>))
         else
           (case sub_ts (ubx_timestamp s) flat_time of
              Inl e \<Rightarrow> Inl e
            | Inr ts \<Rightarrow> Inr (s\<lparr>messages := save_message (messages s) (butlast (queue s)) ts ''UBX'',
                                 ubx_flag := False, queue := [],
                                 unknown_timestamp := Some (now * 1000000)\<rparr>)))
      else if last_two_bytes = [0xB5, 0x62] then
        (case close_pending flat_time s of
           Inl e \<Rightarrow> Inl e
         | Inr ms \<Rightarrow> Inr (s\<lparr>messages := ms, ubx_flag := True,
                             ubx_timestamp := Some (now * 1000000), queue := last_two_bytes\<rparr>))
      else Inr (s\<lparr>queue := queue s @ data\<rparr>))"

text \<open>Line 198, with \<open>end_time\<close> already absolute (or \<open>None\<close>).\<close>

definition stop_requested :: "real option \<Rightarrow> serial_io \<Rightarrow> bool" where
  "stop_requested end_time io =
     ((case end_time of None \<Rightarrow> False | Some e \<Rightarrow> time_check io > e) \<or> terminator io)"

text \<open>
  One pass of the \<open>while True\<close> loop (lines 153-200). An exception leaves the loop with the
  state as it is when the exception is raised.
\<close>

definition loop_body :: "real \<Rightarrow> real option \<Rightarrow> state \<Rightarrow> serial_io \<Rightarrow> state outcome" where
  "loop_body flat_time end_time s0 io =
     (case ser_read io of
        Raises \<Rightarrow> Stopped (Raised SerialException) s0
      | Returns data \<Rightarrow>
          (let s = s0\<lparr>null_cnt := (if data = [] then null_cnt s0 + 1 else 0)\<rparr> in
           if null_cnt s > NULL_CNT then Stopped Stalled s
           else if length (queue s) < 1 then
             Running (s\<lparr>previous_data := data, queue := queue s @ data\<rparr>)
           else
             (case classify flat_time s data (time_stamp io) of
                Inl e \<Rightarrow> Stopped (Raised e) s
              | Inr s' \<Rightarrow>
                  if stop_requested end_time io then Stopped Ended s'
                  else Running (s'\<lparr>previous_data := data\<rparr>))))"

text \<open>
  The loop over the passes that the environment provides. \<open>Running\<close> says that the loop has
  not been left when the list is used up.
\<close>

fun read_loop :: "real \<Rightarrow> real option \<Rightarrow> state \<Rightarrow> serial_io list \<Rightarrow> state outcome" where
  "read_loop flat_time end_time s [] = Running s"
| "read_loop flat_time end_time s (io # ios) =
     (case loop_body flat_time end_time s io of
        Running s' \<Rightarrow> read_loop flat_time end_time s' ios
      | Stopped r s' \<Rightarrow> Stopped r s')"

text \<open>
  \<open>read_serial\<close> (lines 126-205). \<open>t0\<close> and \<open>t1\<close> are the clock readings of lines 143 and
  149, \<open>end_time\<close> the optional duration in seconds. The result is \<open>None\<close> while the loop is
  not left, and otherwise how it was left together with the content written into the file
  by the \<open>finally\<close> block.
\<close>

definition read_serial ::
  "real \<Rightarrow> real \<Rightarrow> int option \<Rightarrow> serial_io list \<Rightarrow> (stop \<times> message list) option" where
  "read_serial t0 t1 end_time ios =
     (let flat_time = t0 * 1000000;
          end_time' = map_option (\<lambda>e. t1 + of_int e) end_time
      in case read_loop flat_time end_time' init ios of
           Running s \<Rightarrow> None
         | Stopped r s \<Rightarrow> Some (r, write_to_file (messages s)))"

section \<open>\<open>read_CAN_bus\<close>\<close>

text \<open>
  A frame as \<open>can_bus.recv\<close> returns it (the attributes the function reads), a decoded
  signal as the database returns it, and the dictionary appended to \<open>can_messages\<close>.
\<close>

record can_frame =
  arbitration_id :: nat
  frame_data :: bytes
  frame_timestamp :: real

datatype 'v signal_value = NamedSignalValue 'v string | Raw 'v

fun value_of :: "'v signal_value \<Rightarrow> 'v" where
  "value_of (NamedSignalValue v n) = v"
| "value_of (Raw v) = v"

record 'v can_object =
  obj_timestamp :: real
  obj_arbitration_id :: nat
  obj_data :: "(string \<times> 'v) list"

text \<open>
  What one pass takes from its environment: the result of \<open>can_bus.recv(CAN_WAIT_TIME)\<close>
  (a raise of the driver, \<open>None\<close> when the wait time expires, or a frame), the clock reading of line 114
  and \<open>TERMINATOR_FLAG\<close> at line 115.
\<close>

record can_io =
  recv :: "can_frame option io_result"
  can_time :: real
  can_terminator :: bool

text \<open>Line 115: \<open>end_time\<close> is the command-line value, compared with the clock as it is.\<close>

definition can_stop :: "int option \<Rightarrow> can_io \<Rightarrow> bool" where
  "can_stop end_time io =
     ((case end_time of None \<Rightarrow> False | Some e \<Rightarrow> can_time io > of_int e) \<or> can_terminator io)"

text \<open>
  One pass of the loop of lines 97-116. The truth value of a frame (\<open>if message:\<close>) and
  \<open>db_can.decode_message\<close> belong to the libraries and are parameters. Line 99 reads an
  attribute of \<open>message\<close> before line 101 tests it, so \<open>None\<close> raises \<open>AttributeError\<close>.
\<close>

definition can_body ::
  "(can_frame \<Rightarrow> bool) \<Rightarrow> (nat \<Rightarrow> bytes \<Rightarrow> error + (string \<times> 'v signal_value) list) \<Rightarrow>
   nat list \<Rightarrow> int option \<Rightarrow> 'v can_object list \<Rightarrow> can_io \<Rightarrow> 'v can_object list outcome" where
  "can_body truthy decode_message message_ids end_time can_messages io =
     (case recv io of
        Raises \<Rightarrow> Stopped (Raised CanError) can_messages
      | Returns None \<Rightarrow> Stopped (Raised AttributeError) can_messages
      | Returns (Some message) \<Rightarrow>
          if arbitration_id message \<notin> set message_ids then Running can_messages
          else if truthy message then
            (case decode_message (arbitration_id message) (frame_data message) of
               Inl e \<Rightarrow> Stopped (Raised e) can_messages
             | Inr decoded_message \<Rightarrow>
                 (let object = \<lparr>obj_timestamp = frame_timestamp message,
                                 obj_arbitration_id = arbitration_id message,
                                 obj_data = map (\<lambda>(k, v). (k, value_of v)) decoded_message\<rparr>;
                      can_messages' = can_messages @ [object]
                  in if can_stop end_time io then Stopped Ended can_messages'
                     else Running can_messages'))
          else Stopped Expired can_messages)"

fun can_loop ::
  "(can_frame \<Rightarrow> bool) \<Rightarrow> (nat \<Rightarrow> bytes \<Rightarrow> error + (string \<times> 'v signal_value) list) \<Rightarrow>
   nat list \<Rightarrow> int option \<Rightarrow> 'v can_object list \<Rightarrow> can_io list \<Rightarrow> 'v can_object list outcome" where
  "can_loop truthy decode_message message_ids end_time can_messages [] = Running can_messages"
| "can_loop truthy decode_message message_ids end_time can_messages (io # ios) =
     (case can_body truthy decode_message message_ids end_time can_messages io of
        Running can_messages' \<Rightarrow> can_loop truthy decode_message message_ids end_time can_messages' ios
      | Stopped r can_messages' \<Rightarrow> Stopped r can_messages')"

text \<open>
  \<open>read_CAN_bus\<close> (lines 81-124) once the database and the bus are open: \<open>None\<close> while the
  loop is not left, otherwise how it was left and what the \<open>finally\<close> block wrote, which
  is nothing (\<open>None\<close>, the file stays empty) when \<open>can_messages\<close> is empty.
\<close>

definition read_CAN_bus ::
  "(can_frame \<Rightarrow> bool) \<Rightarrow> (nat \<Rightarrow> bytes \<Rightarrow> error + (string \<times> 'v signal_value) list) \<Rightarrow>
   nat list \<Rightarrow> int option \<Rightarrow> can_io list \<Rightarrow> (stop \<times> 'v can_object list option) option" where
  "read_CAN_bus truthy decode_message message_ids end_time ios =
     (case can_loop truthy decode_message message_ids end_time [] ios of
        Running can_messages \<Rightarrow> None
      | Stopped r can_messages \<Rightarrow>
          Some (r, if length can_messages > 0 then Some (write_to_file can_messages) else None))"

section \<open>Vocabulary of the properties\<close>

text \<open>A pass that reads the byte \<open>b\<close> at clock reading \<open>c\<close>, with no request to stop.\<close>

definition byte_read :: "real \<Rightarrow> byte \<Rightarrow> serial_io" where
  "byte_read c b = \<lparr>ser_read = Returns [b], time_stamp = c, time_check = c, terminator = False\<rparr>"

text \<open>A pass whose read returns nothing.\<close>

definition empty_read :: "real \<Rightarrow> serial_io" where
  "empty_read c = \<lparr>ser_read = Returns [], time_stamp = c, time_check = c, terminator = False\<rparr>"

text \<open>The reads of the passes deliver the bytes \<open>bs\<close>, one byte each.\<close>

definition feeds :: "serial_io list \<Rightarrow> bytes \<Rightarrow> bool" where
  "feeds ios bs = (map ser_read ios = map (\<lambda>b. Returns [b]) bs)"

text \<open>No read of the passes returns more than one byte (\<open>size=1\<close>).\<close>

definition single_reads :: "serial_io list \<Rightarrow> bool" where
  "single_reads ios = list_all (\<lambda>io. case ser_read io of Raises \<Rightarrow> True | Returns d \<Rightarrow> length d \<le> 1) ios"

text \<open>No pass asks to stop at line 198.\<close>

definition no_stop :: "real option \<Rightarrow> serial_io list \<Rightarrow> bool" where
  "no_stop end_time ios = list_all (\<lambda>io. \<not> stop_requested end_time io) ios"

text \<open>The three windows that \<open>classify\<close> recognises, and a byte string containing one.\<close>

definition boundary :: "bytes \<Rightarrow> bool" where
  "boundary w = (w = [0x24, 0x47] \<or> w = [0x0D, 0x0A] \<or> w = [0xB5, 0x62])"

fun has_boundary :: "bytes \<Rightarrow> bool" where
  "has_boundary (a # b # r) = (boundary [a, b] \<or> has_boundary (b # r))"
| "has_boundary r = False"

text \<open>The number of reads without data at the end of a list of passes.\<close>

definition trailing_nulls :: "serial_io list \<Rightarrow> nat" where
  "trailing_nulls ios = length (takeWhile (\<lambda>io. ser_read io = Returns []) (rev ios))"

text \<open>
  A record holds the payload \<open>p\<close>: in hexadecimal under the types "UBX" and "Unknown",
  as decoded text otherwise. \<open>emitted_as\<close>: some record of the type holds the payload.
  \<open>total_coverage\<close>, in the words of the specification: the payloads of the records, in
  order, concatenate to the bytes fed.
\<close>

definition holds :: "message \<Rightarrow> bytes \<Rightarrow> bool" where
  "holds m p =
     (if msg_type m \<in> set [''UBX'', ''Unknown''] then msg_data m = hex p
      else decode p = Some (msg_data m))"

definition emitted_as :: "string \<Rightarrow> bytes \<Rightarrow> message list \<Rightarrow> bool" where
  "emitted_as ty p ms = list_ex (\<lambda>m. msg_type m = ty \<and> holds m p) ms"

definition total_coverage :: "bytes \<Rightarrow> message list \<Rightarrow> bool" where
  "total_coverage bs ms = (\<exists>ps. list_all2 holds ms ps \<and> concat ps = bs)"

text \<open>
  The calls of \<open>save_message\<close> made by a run, each with the bytes that the pass dropped
  after the payload: \<open>replay\<close> is the deque the calls build, \<open>covered\<close> the bytes they
  account for, and \<open>drops_only_crlf\<close> says that bytes are dropped only as the pair \<open>0D 0A\<close>
  after a payload of type "UBX".
\<close>

type_synonym call = "bytes \<times> real \<times> string \<times> bytes"

definition replay :: "call list \<Rightarrow> message list" where
  "replay calls = foldl (\<lambda>ms (res, ts, ty, dropped). save_message ms res ts ty) [] calls"

definition covered :: "call list \<Rightarrow> bytes" where
  "covered calls = concat (map (\<lambda>(res, ts, ty, dropped). res @ dropped) calls)"

definition drops_only_crlf :: "call list \<Rightarrow> bool" where
  "drops_only_crlf calls =
     list_all (\<lambda>(res, ts, ty, dropped). dropped = [] \<or> (ty = ''UBX'' \<and> dropped = [0x0D, 0x0A])) calls"

text \<open>
  The bytes \<open>bs\<close> are accounted for in the state: some calls of \<open>save_message\<close> built the
  deque, dropping bytes only in that way, and their payloads and dropped bytes, in call
  order and followed by \<open>queue\<close>, are \<open>bs\<close>.
\<close>

definition accounted :: "state \<Rightarrow> bytes \<Rightarrow> bool" where
  "accounted s bs =
     (\<exists>calls. messages s = replay calls \<and> drops_only_crlf calls \<and> covered calls @ queue s = bs)"

text \<open>
  The window is in step with the queue: \<open>previous_data\<close> is at most one byte and, when
  neither is empty, it is the last byte of \<open>queue\<close>.
\<close>

definition window_ok :: "state \<Rightarrow> bool" where
  "window_ok s = (length (previous_data s) \<le> 1 \<and>
      (previous_data s \<noteq> [] \<longrightarrow> queue s \<noteq> [] \<longrightarrow> previous_data s = [last (queue s)]))"

section \<open>Facts about the builtins and \<open>save_message\<close>\<close>

lemma hex_digit_inj: "hex_digit m = hex_digit n \<Longrightarrow> m = n"
  by (auto simp: hex_digit_def split: if_splits)

lemma byte_from_nibbles:
  fixes x y :: byte
  assumes "unat x div 16 = unat y div 16" and "unat x mod 16 = unat y mod 16"
  shows "x = y"
proof -
  have "unat x = unat y"
    using assms by (metis div_mult_mod_eq)
  then show ?thesis by (simp add: word_unat_eq_iff)
qed

lemma hex_inj: "hex res' = hex res \<Longrightarrow> res' = res"
proof (induction res' arbitrary: res)
  case Nil
  then show ?case by (cases res) (simp_all add: hex_def)
next
  case (Cons b bs)
  then obtain c cs where res: "res = c # cs"
    by (cases res) (simp_all add: hex_def)
  from Cons.prems res have "b = c" and "hex bs = hex cs"
    by (auto simp: hex_def dest!: hex_digit_inj intro: byte_from_nibbles)
  with Cons.IH res show ?case by simp
qed

lemma classify_error: "classify flat_time s d now = Inl e \<Longrightarrow> e = TypeError"
  by (auto simp: classify_def close_pending_def sub_ts_def Let_def
      split: if_splits option.splits sum.splits)

section \<open>Facts about the loop of \<open>read_serial\<close>\<close>

lemmas step_defs = loop_body_def classify_def close_pending_def sub_ts_def NULL_CNT_def
  stop_requested_def byte_read_def empty_read_def init_def Let_def

lemma read_loop_append:
  "read_loop f e s (xs @ ys) =
     (case read_loop f e s xs of Running s' \<Rightarrow> read_loop f e s' ys | Stopped r s' \<Rightarrow> Stopped r s')"
  by (induction xs arbitrary: s) (auto split: outcome.splits)

subsection \<open>The deque only grows\<close>

lemma save_message_prefix: "prefix ms (save_message ms res ts ty)"
  by (auto simp: save_message_def Let_def split: sum.splits)

lemma close_pending_prefix: "close_pending f s = Inr ms \<Longrightarrow> prefix (messages s) ms"
  by (auto simp: close_pending_def save_message_prefix split: if_splits sum.splits)

lemma classify_prefix: "classify f s d now = Inr s' \<Longrightarrow> prefix (messages s) (messages s')"
  by (auto simp: classify_def Let_def save_message_prefix
      split: if_splits sum.splits dest: close_pending_prefix)

lemma loop_body_prefix: "prefix (messages s) (messages (final (loop_body f e s io)))"
  by (auto simp: loop_body_def Let_def split: io_result.splits sum.splits dest: classify_prefix)

lemma read_loop_prefix: "prefix (messages s) (messages (final (read_loop f e s ios)))"
proof (induction ios arbitrary: s)
  case Nil
  then show ?case by simp
next
  case (Cons io ios)
  show ?case
  proof (cases "loop_body f e s io")
    case (Running s')
    have "prefix (messages s) (messages s')"
      using loop_body_prefix [of s f e io] Running by simp
    also have "prefix (messages s') (messages (final (read_loop f e s' ios)))"
      by (rule Cons.IH)
    finally show ?thesis using Running by simp
  next
    case (Stopped r s')
    then show ?thesis using loop_body_prefix [of s f e io] by simp
  qed
qed

subsection \<open>The counter of reads without data\<close>

lemma classify_null_cnt: "classify f s d now = Inr s' \<Longrightarrow> null_cnt s' = null_cnt s"
  by (auto simp: classify_def Let_def split: if_splits sum.splits)

lemma loop_body_null_cnt:
  assumes "loop_body f e s io = Running s'"
  shows "null_cnt s' = (if ser_read io = Returns [] then null_cnt s + 1 else 0) \<and>
         null_cnt s' \<le> NULL_CNT"
  using assms
  by (auto simp: loop_body_def Let_def split: io_result.splits sum.splits if_splits
      dest!: classify_null_cnt)

lemma loop_body_stalled:
  "(\<exists>s'. loop_body f e s io = Stopped Stalled s') \<longleftrightarrow>
     (ser_read io = Returns [] \<and> null_cnt s + 1 > NULL_CNT)"
  by (auto simp: loop_body_def Let_def NULL_CNT_def split: io_result.splits sum.splits if_splits)

lemma trailing_nulls_snoc:
  "trailing_nulls (ios @ [io]) = (if ser_read io = Returns [] then trailing_nulls ios + 1 else 0)"
  by (simp add: trailing_nulls_def)

lemma read_loop_null_cnt:
  "read_loop f e init ios = Running s \<Longrightarrow>
     null_cnt s = trailing_nulls ios \<and> null_cnt s \<le> NULL_CNT"
proof (induction ios arbitrary: s rule: rev_induct)
  case Nil
  then show ?case by (auto simp: init_def trailing_nulls_def)
next
  case (snoc io ios)
  from snoc.prems obtain s0 where s0: "read_loop f e init ios = Running s0"
    and step: "loop_body f e s0 io = Running s"
    by (auto simp: read_loop_append split: outcome.splits)
  from snoc.IH [OF s0] loop_body_null_cnt [OF step] show ?case
    by (simp add: trailing_nulls_snoc)
qed

lemma read_loop_empty_reads:
  assumes "queue s = []" and "previous_data s = []" and "null_cnt s + n \<le> NULL_CNT"
  shows "read_loop f e s (replicate n (empty_read c)) = Running (s\<lparr>null_cnt := null_cnt s + n\<rparr>)"
  using assms
proof (induction n arbitrary: s)
  case 0
  then show ?case by simp
next
  case (Suc n)
  have "loop_body f e s (empty_read c) = Running (s\<lparr>null_cnt := null_cnt s + 1\<rparr>)"
    using Suc.prems by (simp add: loop_body_def empty_read_def Let_def)
  moreover have "read_loop f e (s\<lparr>null_cnt := null_cnt s + 1\<rparr>) (replicate n (empty_read c))
      = Running (s\<lparr>null_cnt := null_cnt s + 1 + n\<rparr>)"
    using Suc.IH [of "s\<lparr>null_cnt := null_cnt s + 1\<rparr>"] Suc.prems by simp
  ultimately show ?case by simp
qed

lemma trailing_nulls_empty_reads: "trailing_nulls (replicate n (empty_read c)) = n"
  by (simp add: trailing_nulls_def empty_read_def takeWhile_replicate)

section \<open>What is written when the loop is left\<close>

text \<open>
  Claim C4, as the code has it. When \<open>read_serial\<close> leaves its loop, for whatever reason,
  the file receives exactly the deque \<open>messages\<close> of that moment: the bytes pending in
  \<open>queue\<close> produce no record. Every record that was in the deque at an earlier point of
  the run is in the file, in the same place.
\<close>

theorem written_on_stop:
  assumes "read_serial t0 t1 end_time ios = Some (r, written)"
  shows "(\<exists>s. read_loop (t0 * 1000000) (map_option (\<lambda>e. t1 + of_int e) end_time) init ios
                = Stopped r s \<and> written = messages s) \<and>
         (\<forall>pre post s'. ios = pre @ post \<longrightarrow>
            read_loop (t0 * 1000000) (map_option (\<lambda>e. t1 + of_int e) end_time) init pre
              = Running s' \<longrightarrow>
            prefix (messages s') written)"
proof -
  let ?f = "t0 * 1000000" and ?e = "map_option (\<lambda>e. t1 + of_int e) end_time"
  from assms obtain s where s: "read_loop ?f ?e init ios = Stopped r s"
    and w: "written = messages s"
    by (auto simp: read_serial_def write_to_file_def Let_def split: outcome.splits)
  have "prefix (messages s') written"
    if "ios = pre @ post" and "read_loop ?f ?e init pre = Running s'" for pre post s'
  proof -
    have "read_loop ?f ?e s' post = Stopped r s"
      using s that by (simp add: read_loop_append)
    then show ?thesis
      using read_loop_prefix [of s' ?f ?e post] w by simp
  qed
  with s w show ?thesis by blast
qed

theorem written_on_stop_witness:
  "read_serial 0 0 None
     (map (byte_read 1) [0x24, 0x47, 0x0D, 0x0A] @
      [byte_read 1 0x61, (byte_read 1 0x62)\<lparr>terminator := True\<rparr>])
     = Some (Ended, save_message [] [0x24, 0x47, 0x0D, 0x0A] 1000000 ''NMEA'') \<and>
   is_running (read_loop 0 None init (map (byte_read 1) [0x24, 0x47, 0x0D, 0x0A])) \<and>
   prefix (messages (final (read_loop 0 None init (map (byte_read 1) [0x24, 0x47, 0x0D, 0x0A]))))
     (save_message [] [0x24, 0x47, 0x0D, 0x0A] 1000000 ''NMEA'')"
proof -
  have run: "read_serial 0 0 None
     (map (byte_read 1) [0x24, 0x47, 0x0D, 0x0A] @
      [byte_read 1 0x61, (byte_read 1 0x62)\<lparr>terminator := True\<rparr>])
     = Some (Ended, save_message [] [0x24, 0x47, 0x0D, 0x0A] 1000000 ''NMEA'')"
    by (simp add: read_serial_def write_to_file_def step_defs)
  have pre: "read_loop (0 * 1000000) (map_option (\<lambda>e. 0 + of_int e) None) init
      (map (byte_read 1) [0x24, 0x47, 0x0D, 0x0A]) =
     Running (init\<lparr>messages := save_message [] [0x24, 0x47, 0x0D, 0x0A] 1000000 ''NMEA'',
        nmea_timestamp := Some 1000000, unknown_timestamp := Some 1000000,
        previous_data := [0x0A]\<rparr>)"
    by (simp add: step_defs)
  from written_on_stop [OF run] pre show ?thesis
    using run by auto
qed

text \<open>
  The claim as stated fails: two bytes are pending when the flag stops the loop, and the
  file is written empty.
\<close>

theorem no_flush_counterexample:
  "read_serial 0 0 None [byte_read 1 0x61, (byte_read 1 0x62)\<lparr>terminator := True\<rparr>]
     = Some (Ended, []) \<and>
   queue (final (read_loop 0 None init
     [byte_read 1 0x61, (byte_read 1 0x62)\<lparr>terminator := True\<rparr>])) = [0x61, 0x62]"
  by (simp add: read_serial_def write_to_file_def step_defs)

section \<open>The stall threshold\<close>

text \<open>
  Claim C8. While the loop runs, \<open>null_cnt\<close> is the number of reads without data since the
  last read with data (a read with data resets it) and never exceeds \<open>NULL_CNT\<close>; the next
  pass leaves the loop by the stall \<open>break\<close> exactly when its read is empty and \<open>NULL_CNT\<close>
  empty reads precede it, so that it is the read number \<open>NULL_CNT + 1\<close> of the run.
\<close>

theorem stall_threshold:
  assumes "read_loop f e init pre = Running s"
  shows "null_cnt s = trailing_nulls pre \<and> trailing_nulls pre \<le> NULL_CNT \<and>
         ((\<exists>s'. read_loop f e init (pre @ [io]) = Stopped Stalled s') \<longleftrightarrow>
            (ser_read io = Returns [] \<and> trailing_nulls pre = NULL_CNT))"
proof -
  from read_loop_null_cnt [OF assms]
  have n: "null_cnt s = trailing_nulls pre" and le: "null_cnt s \<le> NULL_CNT" by simp_all
  have "(\<exists>s'. read_loop f e init (pre @ [io]) = Stopped Stalled s') \<longleftrightarrow>
        (\<exists>s'. loop_body f e s io = Stopped Stalled s')"
    using assms by (auto simp: read_loop_append split: outcome.splits)
  also have "\<dots> \<longleftrightarrow> (ser_read io = Returns [] \<and> null_cnt s = NULL_CNT)"
    using le by (auto simp: loop_body_stalled)
  finally show ?thesis using n le by simp
qed

theorem stall_threshold_witness:
  "read_loop 0 None init (replicate 500000 (empty_read 0)) = Running (init\<lparr>null_cnt := 500000\<rparr>) \<and>
   trailing_nulls (replicate 500000 (empty_read 0)) = 500000 \<and>
   (\<exists>s'. read_loop 0 None init (replicate 500000 (empty_read 0) @ [empty_read 0])
      = Stopped Stalled s') \<and>
   \<not> (\<exists>s'. read_loop 0 None init (replicate 500000 (empty_read 0) @ [byte_read 0 0x24])
      = Stopped Stalled s')"
proof -
  have run: "read_loop 0 None init (replicate 500000 (empty_read 0))
      = Running (init\<lparr>null_cnt := 500000\<rparr>)"
    using read_loop_empty_reads [of init 500000 0 None 0] by (simp add: init_def NULL_CNT_def)
  show ?thesis
    using stall_threshold [OF run, of "empty_read 0"]
      stall_threshold [OF run, of "byte_read 0 0x24"] run
    by (simp add: trailing_nulls_empty_reads NULL_CNT_def empty_read_def byte_read_def)
qed

section \<open>Case analysis of one pass\<close>

lemma close_pending_Inr:
  assumes "close_pending f s = Inr ms"
  obtains (none) "\<not> ubx_flag s" and "length (queue s) \<le> 1" and "ms = messages s"
  | (ubx) u where "ubx_flag s" and "ubx_timestamp s = Some u"
      and "ms = save_message (messages s) (butlast (queue s)) (u - f) ''UBX''"
  | (unknown) u where "\<not> ubx_flag s" and "length (queue s) > 1" and "unknown_timestamp s = Some u"
      and "ms = save_message (messages s) (butlast (queue s)) (u - f) ''Unknown''"
  using assms
  by (auto simp: close_pending_def sub_ts_def split: if_splits option.splits)

lemma classify_Inr:
  assumes "classify f s d now = Inr s'"
  obtains (plain) "\<not> boundary (previous_data s @ d)" and "s' = s\<lparr>queue := queue s @ d\<rparr>"
  | (nmea_start) ms where "previous_data s @ d = [0x24, 0x47]" and "close_pending f s = Inr ms"
      and "s' = s\<lparr>messages := ms, nmea_timestamp := Some (now * 1000000),
                   queue := [0x24, 0x47], ubx_flag := False\<rparr>"
  | (nmea_end) u where "previous_data s @ d = [0x0D, 0x0A]" and "\<not> ubx_flag s"
      and "nmea_timestamp s = Some u"
      and "s' = s\<lparr>messages := save_message (messages s) (queue s @ [0x0A]) (u - f) ''NMEA'',
                   queue := [], unknown_timestamp := Some (now * 1000000)\<rparr>"
  | (ubx_end) u where "previous_data s @ d = [0x0D, 0x0A]" and "ubx_flag s"
      and "ubx_timestamp s = Some u"
      and "s' = s\<lparr>messages := save_message (messages s) (butlast (queue s)) (u - f) ''UBX'',
                   ubx_flag := False, queue := [], unknown_timestamp := Some (now * 1000000)\<rparr>"
  | (ubx_start) ms where "previous_data s @ d = [0xB5, 0x62]" and "close_pending f s = Inr ms"
      and "s' = s\<lparr>messages := ms, ubx_flag := True, ubx_timestamp := Some (now * 1000000),
                   queue := [0xB5, 0x62]\<rparr>"
proof -
  define w where "w = previous_data s @ d"
  have c: "classify f s d now =
     (if w = [0x24, 0x47] then
        (case close_pending f s of
           Inl e \<Rightarrow> Inl e
         | Inr ms \<Rightarrow> Inr (s\<lparr>messages := ms, nmea_timestamp := Some (now * 1000000),
                             queue := w, ubx_flag := False\<rparr>))
      else if w = [0x0D, 0x0A] then
        (if \<not> ubx_flag s then
           (case sub_ts (nmea_timestamp s) f of
              Inl e \<Rightarrow> Inl e
            | Inr ts \<Rightarrow> Inr (s\<lparr>messages := save_message (messages s) (queue s @ [0x0A]) ts ''NMEA'',
                                 queue := [], unknown_timestamp := Some (now * 1000000)\<rparr>))
         else
           (case sub_ts (ubx_timestamp s) f of
              Inl e \<Rightarrow> Inl e
            | Inr ts \<Rightarrow> Inr (s\<lparr>messages := save_message (messages s) (butlast (queue s)) ts ''UBX'',
                                 ubx_flag := False, queue := [],
                                 unknown_timestamp := Some (now * 1000000)\<rparr>)))
      else if w = [0xB5, 0x62] then
        (case close_pending f s of
           Inl e \<Rightarrow> Inl e
         | Inr ms \<Rightarrow> Inr (s\<lparr>messages := ms, ubx_flag := True,
                             ubx_timestamp := Some (now * 1000000), queue := w\<rparr>))
      else Inr (s\<lparr>queue := queue s @ d\<rparr>))"
    unfolding classify_def Let_def w_def ..
  consider (a) "w = [0x24, 0x47]" | (b) "w = [0x0D, 0x0A]" | (c) "w = [0xB5, 0x62]" | (d) "\<not> boundary w"
    unfolding boundary_def by blast
  then show thesis
  proof cases
    case a
    with c assms obtain ms where "close_pending f s = Inr ms"
      and "s' = s\<lparr>messages := ms, nmea_timestamp := Some (now * 1000000), queue := w, ubx_flag := False\<rparr>"
      by (cases "close_pending f s") auto
    with a show thesis using nmea_start unfolding w_def by simp
  next
    case b
    show thesis
    proof (cases "ubx_flag s")
      case True
      with b c assms obtain u where "ubx_timestamp s = Some u"
        and "s' = s\<lparr>messages := save_message (messages s) (butlast (queue s)) (u - f) ''UBX'',
                   ubx_flag := False, queue := [], unknown_timestamp := Some (now * 1000000)\<rparr>"
        by (cases "ubx_timestamp s") (auto simp: sub_ts_def)
      with b True show thesis using ubx_end unfolding w_def by simp
    next
      case False
      with b c assms obtain u where "nmea_timestamp s = Some u"
        and "s' = s\<lparr>messages := save_message (messages s) (queue s @ [0x0A]) (u - f) ''NMEA'',
                   queue := [], unknown_timestamp := Some (now * 1000000)\<rparr>"
        by (cases "nmea_timestamp s") (auto simp: sub_ts_def)
      with b False show thesis using nmea_end unfolding w_def by simp
    qed
  next
    case c': c
    with c assms obtain ms where "close_pending f s = Inr ms"
      and "s' = s\<lparr>messages := ms, ubx_flag := True, ubx_timestamp := Some (now * 1000000), queue := w\<rparr>"
      by (cases "close_pending f s") auto
    with c' show thesis using ubx_start unfolding w_def by simp
  next
    case d
    with c assms have "s' = s\<lparr>queue := queue s @ d\<rparr>"
      by (auto simp: boundary_def)
    with d show thesis using plain unfolding w_def by simp
  qed
qed

lemma loop_body_Running:
  assumes "loop_body f e s io = Running s'"
  obtains (first) d where "ser_read io = Returns d" and "queue s = []"
      and "s' = s\<lparr>null_cnt := (if d = [] then null_cnt s + 1 else 0), previous_data := d, queue := d\<rparr>"
  | (classified) d s1 where "ser_read io = Returns d" and "queue s \<noteq> []"
      and "classify f (s\<lparr>null_cnt := (if d = [] then null_cnt s + 1 else 0)\<rparr>) d (time_stamp io) = Inr s1"
      and "s' = s1\<lparr>previous_data := d\<rparr>" and "\<not> stop_requested e io"
proof (cases "ser_read io")
  case Raises
  with assms show thesis by (simp add: loop_body_def)
next
  case (Returns d)
  show thesis
  proof (cases "queue s = []")
    case True
    with Returns assms have "s' = s\<lparr>null_cnt := (if d = [] then null_cnt s + 1 else 0), previous_data := d, queue := d\<rparr>"
      by (simp add: loop_body_def Let_def split: if_splits)
    with Returns True show thesis by (rule first)
  next
    case False
    with Returns assms obtain s1 where
      "classify f (s\<lparr>null_cnt := (if d = [] then null_cnt s + 1 else 0)\<rparr>) d (time_stamp io) = Inr s1"
      and "s' = s1\<lparr>previous_data := d\<rparr>" and "\<not> stop_requested e io"
      by (simp add: loop_body_def Let_def split: if_splits sum.splits)
    with Returns False show thesis by (rule classified)
  qed
qed

section \<open>Invariants of the running loop\<close>

lemma window_split:
  assumes "p @ d = [a, b]" and "length p \<le> 1" and "length d \<le> 1"
  shows "p = [a] \<and> d = [b]"
  using assms by (cases p; cases d) auto

lemma loop_body_ubx_open:
  assumes inv: "ubx_flag s \<longrightarrow> ubx_timestamp s \<noteq> None \<and> queue s \<noteq> []"
    and step: "loop_body f e s io = Running s'"
  shows "ubx_flag s' \<longrightarrow> ubx_timestamp s' \<noteq> None \<and> queue s' \<noteq> []"
  using step
proof (cases rule: loop_body_Running)
  case (first d)
  with inv show ?thesis by simp
next
  case (classified d s1)
  from classified(3) show ?thesis
    by (cases rule: classify_Inr) (use inv classified(2,4) in simp_all)
qed

lemma loop_body_window_ok:
  assumes inv: "window_ok s" and d: "ser_read io = Returns d" "length d \<le> 1"
    and step: "loop_body f e s io = Running s'"
  shows "window_ok s'"
  using step
proof (cases rule: loop_body_Running)
  case (first d')
  with d have "previous_data s' = d" and "queue s' = d" by simp_all
  with d(2) show ?thesis
    by (cases d) (simp_all add: window_ok_def)
next
  case (classified d' s1)
  with d have dd: "d' = d" by simp
  have p: "length (previous_data s) \<le> 1"
    using inv by (simp add: window_ok_def)
  have prev: "previous_data s' = d"
    using classified(4) dd by simp
  have q: "queue s' = queue s1"
    using classified(4) by simp
  let ?s0 = "s\<lparr>null_cnt := (if d' = [] then null_cnt s + 1 else 0)\<rparr>"
  have p0: "previous_data ?s0 = previous_data s" and q0: "queue ?s0 = queue s" by simp_all
  from classified(3) show ?thesis
  proof (cases rule: classify_Inr)
    case plain
    then have "queue s1 = queue s @ d" using dd by simp
    with prev q d(2) show ?thesis
      by (cases d) (simp_all add: window_ok_def)
  next
    case (nmea_start ms)
    then have "previous_data s @ d = [0x24, 0x47]" and "queue s1 = [0x24, 0x47]"
      using dd by simp_all
    with window_split [of "previous_data s" d "0x24" "0x47"] p d(2) prev q show ?thesis
      by (simp add: window_ok_def)
  next
    case (nmea_end u)
    then have "queue s1 = []" by simp
    with prev q d(2) show ?thesis by (simp add: window_ok_def)
  next
    case (ubx_end u)
    then have "queue s1 = []" by simp
    with prev q d(2) show ?thesis by (simp add: window_ok_def)
  next
    case (ubx_start ms)
    then have "previous_data s @ d = [0xB5, 0x62]" and "queue s1 = [0xB5, 0x62]"
      using dd by simp_all
    with window_split [of "previous_data s" d "0xB5" "0x62"] p d(2) prev q show ?thesis
      by (simp add: window_ok_def)
  qed
qed

lemma read_loop_snoc_Running:
  assumes "read_loop f e s (ios @ [io]) = Running s'"
  obtains s0 where "read_loop f e s ios = Running s0" and "loop_body f e s0 io = Running s'"
  using assms by (auto simp: read_loop_append split: outcome.splits)

lemma read_loop_ubx_open:
  "read_loop f e init ios = Running s \<Longrightarrow>
     ubx_flag s \<longrightarrow> ubx_timestamp s \<noteq> None \<and> queue s \<noteq> []"
proof (induction ios arbitrary: s rule: rev_induct)
  case Nil
  then show ?case by (auto simp: init_def)
next
  case (snoc io ios)
  from snoc.prems obtain s0 where s0: "read_loop f e init ios = Running s0"
    and step: "loop_body f e s0 io = Running s"
    by (rule read_loop_snoc_Running)
  from loop_body_ubx_open [OF snoc.IH [OF s0] step] show ?case .
qed

lemma single_reads_snoc:
  "single_reads (ios @ [io]) \<longleftrightarrow>
     single_reads ios \<and> (case ser_read io of Raises \<Rightarrow> True | Returns d \<Rightarrow> length d \<le> 1)"
  by (simp add: single_reads_def)

lemma loop_body_Running_Returns:
  "loop_body f e s io = Running s' \<Longrightarrow> \<exists>d. ser_read io = Returns d"
  by (auto simp: loop_body_def split: io_result.splits)

lemma read_loop_window_ok:
  "single_reads ios \<Longrightarrow> read_loop f e init ios = Running s \<Longrightarrow> window_ok s"
proof (induction ios arbitrary: s rule: rev_induct)
  case Nil
  then show ?case by (auto simp: init_def window_ok_def)
next
  case (snoc io ios)
  from snoc.prems(2) obtain s0 where s0: "read_loop f e init ios = Running s0"
    and step: "loop_body f e s0 io = Running s"
    by (rule read_loop_snoc_Running)
  from loop_body_Running_Returns [OF step] obtain d where d: "ser_read io = Returns d" ..
  with snoc.prems(1) have "single_reads ios" and "length d \<le> 1"
    by (simp_all add: single_reads_snoc)
  with snoc.IH [OF _ s0] d step show ?case
    by (blast intro: loop_body_window_ok)
qed

section \<open>Carriage return and line feed inside a binary frame\<close>

text \<open>
  Claim C5, as the code has it. When the window \<open>0D 0A\<close> is recognised while \<open>ubx_flag\<close>
  is set, the last byte of \<open>queue\<close> is the carriage return; \<open>save_message\<close> is called
  with the type "UBX" and \<open>queue\<close> without that last byte, at the timestamp of the start
  of the frame; the line feed is never appended; the flag is cleared and \<open>queue\<close> emptied.
\<close>

theorem crlf_in_binary_frame:
  assumes "single_reads pre" and "read_loop f e init pre = Running s"
    and "ubx_flag s" and "previous_data s = [0x0D]" and "ser_read io = Returns [0x0A]"
  shows "\<exists>u. ubx_timestamp s = Some u \<and> queue s = butlast (queue s) @ [0x0D] \<and>
           messages (final (read_loop f e init (pre @ [io]))) =
             save_message (messages s) (butlast (queue s)) (u - f) ''UBX'' \<and>
           \<not> ubx_flag (final (read_loop f e init (pre @ [io]))) \<and>
           queue (final (read_loop f e init (pre @ [io]))) = []"
proof -
  from read_loop_ubx_open [OF assms(2)] assms(3)
  obtain u where u: "ubx_timestamp s = Some u" and q: "queue s \<noteq> []" by auto
  from read_loop_window_ok [OF assms(1,2)] assms(4) q
  have "last (queue s) = 0x0D" by (simp add: window_ok_def)
  with q have q': "queue s = butlast (queue s) @ [0x0D]"
    by (metis append_butlast_last_id)
  have "read_loop f e init (pre @ [io]) = loop_body f e s io"
    using assms(2) by (simp add: read_loop_append split: outcome.splits)
  moreover have "messages (final (loop_body f e s io)) =
             save_message (messages s) (butlast (queue s)) (u - f) ''UBX'' \<and>
           \<not> ubx_flag (final (loop_body f e s io)) \<and> queue (final (loop_body f e s io)) = []"
    using assms(3,4,5) u q
    by (simp add: loop_body_def classify_def sub_ts_def NULL_CNT_def Let_def)
  ultimately show ?thesis using u q' by simp
qed

theorem crlf_in_binary_frame_witness:
  "single_reads (map (byte_read 1) [0xB5, 0x62, 1, 0x0D]) \<and>
   read_loop 0 None init (map (byte_read 1) [0xB5, 0x62, 1, 0x0D]) =
     Running (init\<lparr>queue := [0xB5, 0x62, 1, 0x0D], ubx_flag := True,
                   ubx_timestamp := Some 1000000, previous_data := [0x0D]\<rparr>) \<and>
   messages (final (read_loop 0 None init (map (byte_read 1) [0xB5, 0x62, 1, 0x0D] @ [byte_read 2 0x0A])))
     = save_message [] [0xB5, 0x62, 1] 1000000 ''UBX'' \<and>
   \<not> ubx_flag (final (read_loop 0 None init (map (byte_read 1) [0xB5, 0x62, 1, 0x0D] @ [byte_read 2 0x0A]))) \<and>
   queue (final (read_loop 0 None init (map (byte_read 1) [0xB5, 0x62, 1, 0x0D] @ [byte_read 2 0x0A]))) = []"
proof -
  have sr: "single_reads (map (byte_read 1) [0xB5, 0x62, 1, 0x0D])"
    by (simp add: single_reads_def byte_read_def)
  have run: "read_loop 0 None init (map (byte_read 1) [0xB5, 0x62, 1, 0x0D]) =
     Running (init\<lparr>queue := [0xB5, 0x62, 1, 0x0D], ubx_flag := True,
                   ubx_timestamp := Some 1000000, previous_data := [0x0D]\<rparr>)"
    by (simp add: step_defs)
  from crlf_in_binary_frame [OF sr run, of "byte_read 2 0x0A"] sr run show ?thesis
    by (simp add: byte_read_def init_def)
qed

text \<open>
  The claim as stated fails: the record holds the frame without the carriage return, not
  the pending bytes less the line feed alone.
\<close>

theorem crlf_in_binary_frame_counterexample:
  "emitted_as ''UBX'' [0xB5, 0x62, 1]
     (messages (final (read_loop 0 None init (map (byte_read 1) [0xB5, 0x62, 1, 0x0D, 0x0A])))) \<and>
   \<not> emitted_as ''UBX'' [0xB5, 0x62, 1, 0x0D]
     (messages (final (read_loop 0 None init (map (byte_read 1) [0xB5, 0x62, 1, 0x0D, 0x0A]))))"
  by (simp add: step_defs save_message_def data_entry_def emitted_as_def holds_def hex_def hex_digit_def Let_def)

section \<open>A message due before its timestamp exists\<close>

text \<open>
  Claim C6. The loop is running and the next byte completes a window at which a message
  must be saved under a timestamp that has never been assigned: a frame start (\<open>$G\<close> or
  the sync pattern) with no binary frame open, more than one byte in \<open>queue\<close> and
  \<open>unknown_timestamp\<close> still \<open>None\<close>, or the window \<open>0D 0A\<close> with no binary frame open
  and \<open>nmea_timestamp\<close> still \<open>None\<close>. Then the subtraction raises \<open>TypeError\<close>, the loop
  is left through the handler with nothing appended, and the file receives the records
  saved before.
\<close>

theorem missing_timestamp_raises:
  assumes "read_loop (t0 * 1000000) (map_option (\<lambda>e. t1 + of_int e) end_time) init pre = Running s"
    and "queue s \<noteq> []" and "previous_data s = [a]" and "ser_read io = Returns [b]"
    and "\<not> ubx_flag s"
    and "(([a, b] = [0x24, 0x47] \<or> [a, b] = [0xB5, 0x62]) \<and> 1 < length (queue s) \<and>
            unknown_timestamp s = None) \<or>
         ([a, b] = [0x0D, 0x0A] \<and> nmea_timestamp s = None)"
  shows "(\<exists>s'. read_loop (t0 * 1000000) (map_option (\<lambda>e. t1 + of_int e) end_time) init
                 (pre @ io # rest) = Stopped (Raised TypeError) s' \<and>
               messages s' = messages s \<and> queue s' = queue s) \<and>
         read_serial t0 t1 end_time (pre @ io # rest) = Some (Raised TypeError, messages s)"
proof -
  let ?f = "t0 * 1000000" and ?e = "map_option (\<lambda>e. t1 + of_int e) end_time"
  have step: "loop_body ?f ?e s io = Stopped (Raised TypeError) (s\<lparr>null_cnt := 0\<rparr>)"
    using assms(6)
  proof
    assume "([a, b] = [0x24, 0x47] \<or> [a, b] = [0xB5, 0x62]) \<and> 1 < length (queue s) \<and>
            unknown_timestamp s = None"
    with assms(2-5) show ?thesis
      by (auto simp: loop_body_def classify_def close_pending_def sub_ts_def NULL_CNT_def)
  next
    assume "[a, b] = [0x0D, 0x0A] \<and> nmea_timestamp s = None"
    with assms(2-5) show ?thesis
      by (simp add: loop_body_def classify_def sub_ts_def NULL_CNT_def)
  qed
  with assms(1) have run: "read_loop ?f ?e init (pre @ io # rest) = Stopped (Raised TypeError) (s\<lparr>null_cnt := 0\<rparr>)"
    by (simp add: read_loop_append)
  then show ?thesis
    by (simp add: read_serial_def write_to_file_def)
qed

theorem missing_timestamp_raises_witness:
  "read_loop 0 None init (map (byte_read 1) [0xB5, 0x62, 0xB5, 0x62, 0x0D, 0x0A, 0x0D]) =
     Running (init\<lparr>messages := save_message (save_message [] [0xB5, 0x62] 1000000 ''UBX'')
                                   [0xB5, 0x62] 1000000 ''UBX'',
                   queue := [0x0D], ubx_timestamp := Some 1000000,
                   unknown_timestamp := Some 1000000, previous_data := [0x0D]\<rparr>) \<and>
   read_serial 0 0 None
     (map (byte_read 1) [0xB5, 0x62, 0xB5, 0x62, 0x0D, 0x0A, 0x0D] @ byte_read 1 0x0A # [byte_read 1 0x24])
     = Some (Raised TypeError,
         save_message (save_message [] [0xB5, 0x62] 1000000 ''UBX'') [0xB5, 0x62] 1000000 ''UBX'')"
proof -
  have run: "read_loop (0 * 1000000) (map_option (\<lambda>e. 0 + of_int e) None) init
      (map (byte_read 1) [0xB5, 0x62, 0xB5, 0x62, 0x0D, 0x0A, 0x0D]) =
     Running (init\<lparr>messages := save_message (save_message [] [0xB5, 0x62] 1000000 ''UBX'')
                                   [0xB5, 0x62] 1000000 ''UBX'',
                   queue := [0x0D], ubx_timestamp := Some 1000000,
                   unknown_timestamp := Some 1000000, previous_data := [0x0D]\<rparr>)"
    by (simp add: step_defs)
  from missing_timestamp_raises [OF run, of "0x0D" "byte_read 1 0x0A" "0x0A" "[byte_read 1 0x24]"] run
  show ?thesis
    by (simp add: byte_read_def init_def)
qed

text \<open>The inputs named by the claim, from the initial state.\<close>

lemma missing_timestamp_examples:
  "read_serial 0 0 None (map (byte_read 1) [0x78, 0x24, 0x47]) = Some (Raised TypeError, [])"
  "read_serial 0 0 None (map (byte_read 1) [0x78, 0xB5, 0x62]) = Some (Raised TypeError, [])"
  "read_serial 0 0 None (map (byte_read 1) [0x0D, 0x0A]) = Some (Raised TypeError, [])"
  by (simp_all add: read_serial_def write_to_file_def step_defs)

section \<open>Classification fallback\<close>

text \<open>
  Claim C7. The loop is running with a sentence open (no binary frame, its start
  timestamp recorded) and the line feed completes the window \<open>0D 0A\<close>, but the sentence
  with its line feed is not well-formed UTF-8. Then the pass appends exactly one record to
  the deque, of type "Unknown", at the timestamp of the start of the sentence, holding the
  whole sentence in hexadecimal, from which the bytes can be read back (\<open>hex\<close> is
  injective). No exception leaves the loop: it goes on, or ends only on the deadline or
  the flag, with \<open>queue\<close> emptied. The entry of a message typed "UBX" is always built
  (\<open>hex\<close> cannot raise), so the fallback never applies to it.
\<close>

theorem classification_fallback:
  assumes "read_loop f e init pre = Running s"
    and "queue s \<noteq> []" and "previous_data s = [0x0D]" and "ser_read io = Returns [0x0A]"
    and "\<not> ubx_flag s" and "nmea_timestamp s = Some u"
    and "decode (queue s @ [0x0A]) = None"
  shows "messages (final (read_loop f e init (pre @ [io]))) =
           messages s @ [\<lparr>msg_timestamp = u - f, msg_type = ''Unknown'',
                          msg_data = hex (queue s @ [0x0A])\<rparr>] \<and>
         (\<forall>res'. hex res' = hex (queue s @ [0x0A]) \<longrightarrow> res' = queue s @ [0x0A]) \<and>
         (\<forall>r s'. read_loop f e init (pre @ [io]) = Stopped r s' \<longrightarrow>
            r = Ended \<and> stop_requested e io) \<and>
         (\<not> stop_requested e io \<longrightarrow> is_running (read_loop f e init (pre @ [io]))) \<and>
         queue (final (read_loop f e init (pre @ [io]))) = [] \<and>
         data_entry res ''UBX'' = Inr (hex res)"
proof -
  let ?rec = "\<lparr>msg_timestamp = u - f, msg_type = ''Unknown'', msg_data = hex (queue s @ [0x0A])\<rparr>"
  have sm: "save_message (messages s) (queue s @ [0x0A]) (u - f) ''NMEA'' = messages s @ [?rec]"
    using assms(7) by (simp add: save_message_def data_entry_def)
  let ?s1 = "s\<lparr>null_cnt := 0, messages := messages s @ [?rec], queue := [],
               unknown_timestamp := Some (time_stamp io * 1000000)\<rparr>"
  have cl: "classify f (s\<lparr>null_cnt := 0\<rparr>) [0x0A] (time_stamp io) = Inr ?s1"
    using assms(3,5,6) sm by (simp add: classify_def sub_ts_def)
  have step: "loop_body f e s io =
      (if stop_requested e io then Stopped Ended ?s1 else Running (?s1\<lparr>previous_data := [0x0A]\<rparr>))"
    using assms(2,4) cl by (simp add: loop_body_def NULL_CNT_def)
  have run: "read_loop f e init (pre @ [io]) = loop_body f e s io"
    using assms(1) by (simp add: read_loop_append split: outcome.splits)
  have "data_entry res ''UBX'' = Inr (hex res)"
    by (simp add: data_entry_def)
  with run step show ?thesis
    by (auto dest: hex_inj)
qed

theorem classification_fallback_witness:
  "read_loop 0 None init (map (byte_read 1) [0x24, 0x47, 0xFF, 0x0D]) =
     Running (init\<lparr>queue := [0x24, 0x47, 0xFF, 0x0D], nmea_timestamp := Some 1000000,
                   previous_data := [0x0D]\<rparr>) \<and>
   decode [0x24, 0x47, 0xFF, 0x0D, 0x0A] = None \<and>
   messages (final (read_loop 0 None init
       (map (byte_read 1) [0x24, 0x47, 0xFF, 0x0D] @ [byte_read 2 0x0A]))) =
     [\<lparr>msg_timestamp = 1000000, msg_type = ''Unknown'',
        msg_data = hex [0x24, 0x47, 0xFF, 0x0D, 0x0A]\<rparr>] \<and>
   is_running (read_loop 0 None init
       (map (byte_read 1) [0x24, 0x47, 0xFF, 0x0D] @ [byte_read 2 0x0A]))"
proof -
  have run: "read_loop 0 None init (map (byte_read 1) [0x24, 0x47, 0xFF, 0x0D]) =
     Running (init\<lparr>queue := [0x24, 0x47, 0xFF, 0x0D], nmea_timestamp := Some 1000000,
                   previous_data := [0x0D]\<rparr>)"
    by (simp add: step_defs)
  have dec: "decode [0x24, 0x47, 0xFF, 0x0D, 0x0A] = None"
    by (simp add: decode_def)
  from classification_fallback [OF run, of "byte_read 2 0x0A" 1000000] run dec
  show ?thesis
    by (simp add: byte_read_def init_def stop_requested_def)
qed

section \<open>Every byte is accounted for\<close>

lemma replay_snoc: "replay (calls @ [(res, ts, ty, dr)]) = save_message (replay calls) res ts ty"
  by (simp add: replay_def)

lemma covered_snoc: "covered (calls @ [(res, ts, ty, dr)]) = covered calls @ res @ dr"
  by (simp add: covered_def)

lemma drops_only_crlf_snoc:
  "drops_only_crlf (calls @ [(res, ts, ty, dr)]) \<longleftrightarrow>
     drops_only_crlf calls \<and> (dr = [] \<or> (ty = ''UBX'' \<and> dr = [0x0D, 0x0A]))"
  by (simp add: drops_only_crlf_def)

lemma accounted_keep:
  assumes "accounted s bs" and "messages s' = messages s" and "queue s' = queue s @ d"
  shows "accounted s' (bs @ d)"
  using assms unfolding accounted_def by auto

lemma accounted_emit:
  assumes "accounted s bs" and "messages s' = save_message (messages s) res ts ty"
    and "dr = [] \<or> (ty = ''UBX'' \<and> dr = [0x0D, 0x0A])"
    and "res @ dr @ queue s' = queue s @ d"
  shows "accounted s' (bs @ d)"
proof -
  from assms(1) obtain calls where c: "messages s = replay calls" "drops_only_crlf calls"
    "covered calls @ queue s = bs"
    unfolding accounted_def by blast
  let ?calls = "calls @ [(res, ts, ty, dr)]"
  have "messages s' = replay ?calls"
    using c(1) assms(2) by (simp add: replay_snoc)
  moreover have "drops_only_crlf ?calls"
    using c(2) assms(3) by (simp add: drops_only_crlf_snoc)
  moreover have "covered ?calls @ queue s' = bs @ d"
    using c(3) assms(4) by (simp add: covered_snoc)
  ultimately show ?thesis unfolding accounted_def by blast
qed

lemma accounted_close_pending:
  assumes acc: "accounted s bs" and cp: "close_pending f s = Inr ms"
    and q: "queue s \<noteq> []" and m: "messages s' = ms"
    and q': "queue s' = [last (queue s)] @ d"
  shows "accounted s' (bs @ d)"
proof -
  have bl: "butlast (queue s) @ [] @ queue s' = queue s @ d"
    using q q' by simp
  from cp show ?thesis
  proof (cases rule: close_pending_Inr)
    case none
    with q have "queue s = [last (queue s)]"
      by (cases "queue s") auto
    with q' have "queue s' = queue s @ d" by simp
    with acc m none(3) show ?thesis by (simp add: accounted_keep)
  next
    case (ubx u)
    with m have "messages s' = save_message (messages s) (butlast (queue s)) (u - f) ''UBX''" by simp
    from accounted_emit [OF acc this _ bl] show ?thesis by simp
  next
    case (unknown u)
    with m have "messages s' = save_message (messages s) (butlast (queue s)) (u - f) ''Unknown''" by simp
    from accounted_emit [OF acc this _ bl] show ?thesis by simp
  qed
qed

lemma loop_body_accounted:
  assumes acc: "accounted s bs" and w: "window_ok s" and rd: "ser_read io = Returns [b]"
    and step: "loop_body f e s io = Running s'"
  shows "accounted s' (bs @ [b])"
  using step
proof (cases rule: loop_body_Running)
  case (first d)
  with rd have "messages s' = messages s" and "queue s' = queue s @ [b]" by simp_all
  with acc show ?thesis by (rule accounted_keep)
next
  case (classified d s1)
  with rd have d: "d = [b]" by simp
  let ?s0 = "s\<lparr>null_cnt := (if d = [] then null_cnt s + 1 else 0)\<rparr>"
  have acc0: "accounted ?s0 bs"
    using acc by (simp add: accounted_def)
  have m: "messages s' = messages s1" and q: "queue s' = queue s1"
    using classified(4) by simp_all
  have p: "length (previous_data s) \<le> 1"
    using w by (simp add: window_ok_def)
  have lastq: "last (queue s) = a" if "previous_data s @ [b] = [a, c]" for a c
  proof -
    from window_split [of "previous_data s" "[b]" a c] that p
    have "previous_data s = [a]" by simp
    with w classified(2) show ?thesis by (simp add: window_ok_def)
  qed
  from classified(3) show ?thesis
  proof (cases rule: classify_Inr)
    case plain
    with m q d have "messages s' = messages ?s0" and "queue s' = queue ?s0 @ [b]" by simp_all
    with acc0 show ?thesis by (rule accounted_keep)
  next
    case (nmea_start ms)
    from nmea_start(1) d have win: "previous_data s @ [b] = [0x24, 0x47]" by simp
    from window_split [of "previous_data s" "[b]" "0x24" "0x47"] win p have "b = 0x47" by simp
    with lastq [OF win] nmea_start(3) q have "queue s' = [last (queue ?s0)] @ [b]" by simp
    moreover have "messages s' = ms" using nmea_start(3) m by simp
    moreover have "queue ?s0 \<noteq> []" using classified(2) by simp
    ultimately show ?thesis
      using accounted_close_pending [OF acc0 nmea_start(2)] by blast
  next
    case (ubx_start ms)
    from ubx_start(1) d have win: "previous_data s @ [b] = [0xB5, 0x62]" by simp
    from window_split [of "previous_data s" "[b]" "0xB5" "0x62"] win p have "b = 0x62" by simp
    with lastq [OF win] ubx_start(3) q have "queue s' = [last (queue ?s0)] @ [b]" by simp
    moreover have "messages s' = ms" using ubx_start(3) m by simp
    moreover have "queue ?s0 \<noteq> []" using classified(2) by simp
    ultimately show ?thesis
      using accounted_close_pending [OF acc0 ubx_start(2)] by blast
  next
    case (nmea_end u)
    from nmea_end(1) d have win: "previous_data s @ [b] = [0x0D, 0x0A]" by simp
    from window_split [of "previous_data s" "[b]" "0x0D" "0x0A"] win p have b: "b = 0x0A" by simp
    have "messages s' = save_message (messages ?s0) (queue s @ [0x0A]) (u - f) ''NMEA''"
      using nmea_end(4) m by simp
    moreover have "(queue s @ [0x0A]) @ [] @ queue s' = queue ?s0 @ [b]"
      using nmea_end(4) q b by simp
    ultimately show ?thesis
      using accounted_emit [OF acc0, of s' "queue s @ [0x0A]" "u - f" "''NMEA''" "[]" "[b]"] by simp
  next
    case (ubx_end u)
    from ubx_end(1) d have win: "previous_data s @ [b] = [0x0D, 0x0A]" by simp
    from window_split [of "previous_data s" "[b]" "0x0D" "0x0A"] win p have b: "b = 0x0A" by simp
    have "messages s' = save_message (messages ?s0) (butlast (queue s)) (u - f) ''UBX''"
      using ubx_end(4) m by simp
    moreover have "butlast (queue s) @ [0x0D, 0x0A] @ queue s' = queue ?s0 @ [b]"
      using ubx_end(4) q b lastq [OF win] classified(2)
      by simp (metis append_butlast_last_id append.assoc append_Cons append_Nil)
    ultimately show ?thesis
      using accounted_emit [OF acc0, of s' "butlast (queue s)" "u - f" "''UBX''" "[0x0D, 0x0A]" "[b]"] by simp
  qed
qed

lemma feeds_snoc:
  assumes "feeds (ios @ [io]) bs"
  obtains bs' b where "bs = bs' @ [b]" and "feeds ios bs'" and "ser_read io = Returns [b]"
proof -
  from assms have "map (\<lambda>b. Returns [b]) bs = map ser_read ios @ [ser_read io]"
    by (simp add: feeds_def)
  then obtain bs' r where "bs = bs' @ r" and "map (\<lambda>b. Returns [b]) bs' = map ser_read ios"
    and "map (\<lambda>b. Returns [b]) r = [ser_read io]"
    by (auto simp: map_eq_append_conv)
  moreover from this obtain b where "r = [b]" and "ser_read io = Returns [b]"
    by (cases r) auto
  ultimately show thesis
    using that by (simp add: feeds_def)
qed

lemma feeds_single_reads: "feeds ios bs \<Longrightarrow> single_reads ios"
proof (induction ios arbitrary: bs)
  case Nil
  then show ?case by (simp add: single_reads_def)
next
  case (Cons io ios)
  then obtain b bs' where "bs = b # bs'" and "ser_read io = Returns [b]" and "feeds ios bs'"
    by (cases bs) (auto simp: feeds_def)
  with Cons.IH [of bs'] show ?case by (simp add: single_reads_def)
qed

lemma read_loop_accounted:
  "feeds ios bs \<Longrightarrow> read_loop f e init ios = Running s \<Longrightarrow> accounted s bs"
proof (induction ios arbitrary: s bs rule: rev_induct)
  case Nil
  then have "bs = []" and "s = init" by (simp_all add: feeds_def)
  moreover have "accounted init []"
    unfolding accounted_def
    by (rule exI [of _ "[]"]) (simp add: init_def replay_def covered_def drops_only_crlf_def)
  ultimately show ?case by simp
next
  case (snoc io ios)
  from snoc.prems(1) obtain bs' b where bs: "bs = bs' @ [b]" and f: "feeds ios bs'"
    and rd: "ser_read io = Returns [b]"
    by (rule feeds_snoc)
  from snoc.prems(2) obtain s0 where s0: "read_loop f e init ios = Running s0"
    and step: "loop_body f e s0 io = Running s"
    by (rule read_loop_snoc_Running)
  have "window_ok s0"
    using feeds_single_reads [OF f] s0 by (rule read_loop_window_ok)
  with snoc.IH [OF f s0] rd step show ?case
    unfolding bs by (blast intro: loop_body_accounted)
qed

section \<open>Total coverage\<close>

text \<open>
  Claim C1, as the code has it. The bytes \<open>bs\<close> are fed one per read and the loop is still
  running after the last of them. Then the deque is built by calls of \<open>save_message\<close>
  whose payloads, in call order, each followed by the pair \<open>0D 0A\<close> where the call closed
  a binary frame at that window, and then followed by the bytes pending in \<open>queue\<close>, are
  exactly \<open>bs\<close>: every byte is in one payload, in one dropped pair or in \<open>queue\<close>, in
  the order of arrival. How many records a call stores is left to \<open>save_message\<close>.
\<close>

theorem coverage_with_pending:
  assumes "feeds ios bs" and "read_loop f e init ios = Running s"
  shows "\<exists>calls. messages s = replay calls \<and> drops_only_crlf calls \<and>
           covered calls @ queue s = bs"
  using read_loop_accounted [OF assms] by (simp add: accounted_def)

theorem coverage_with_pending_witness:
  "feeds (map (byte_read 1) [0x24, 0x47, 0x0D, 0x0A, 0x61]) [0x24, 0x47, 0x0D, 0x0A, 0x61] \<and>
   read_loop 0 None init (map (byte_read 1) [0x24, 0x47, 0x0D, 0x0A, 0x61]) =
     Running (init\<lparr>messages := save_message [] [0x24, 0x47, 0x0D, 0x0A] 1000000 ''NMEA'',
        queue := [0x61], nmea_timestamp := Some 1000000, unknown_timestamp := Some 1000000,
        previous_data := [0x61]\<rparr>) \<and>
   (\<exists>calls. save_message [] [0x24, 0x47, 0x0D, 0x0A] 1000000 ''NMEA'' = replay calls \<and>
      drops_only_crlf calls \<and> covered calls @ [0x61] = [0x24, 0x47, 0x0D, 0x0A, 0x61])"
proof -
  have fd: "feeds (map (byte_read 1) [0x24, 0x47, 0x0D, 0x0A, 0x61]) [0x24, 0x47, 0x0D, 0x0A, 0x61]"
    by (simp add: feeds_def byte_read_def)
  have run: "read_loop 0 None init (map (byte_read 1) [0x24, 0x47, 0x0D, 0x0A, 0x61]) =
     Running (init\<lparr>messages := save_message [] [0x24, 0x47, 0x0D, 0x0A] 1000000 ''NMEA'',
        queue := [0x61], nmea_timestamp := Some 1000000, unknown_timestamp := Some 1000000,
        previous_data := [0x61]\<rparr>)"
    by (simp add: step_defs)
  from coverage_with_pending [OF fd run] fd run show ?thesis
    by (simp add: init_def)
qed

text \<open>
  The claim as stated fails: after the two bytes \<open>61 62\<close> no record exists, so no payloads
  concatenate to the input.
\<close>

theorem total_coverage_counterexample:
  "\<not> total_coverage [0x61, 0x62]
       (messages (final (read_loop 0 None init (map (byte_read 1) [0x61, 0x62]))))"
  by (simp add: total_coverage_def step_defs)

section \<open>One sentence, one record\<close>

text \<open>
  Claim C2 asks for exactly one record when \<open>$GPGGA,1\<close> followed by carriage return and
  line feed is fed from the start. The payload is the whole sentence with the line feed,
  and the type is "NMEA", but the deque holds the record twice: line 37 appends it and
  line 45 appends it again.
\<close>

theorem nmea_sentence_saved_twice:
  "messages (final (read_loop 0 None init
      (map (byte_read 1) [0x24, 0x47, 0x50, 0x47, 0x47, 0x41, 0x2C, 0x31, 0x0D, 0x0A]))) =
     [\<lparr>msg_timestamp = 1000000, msg_type = ''NMEA'',
        msg_data = [0x24, 0x47, 0x50, 0x47, 0x47, 0x41, 0x2C, 0x31, 0x0D, 0x0A]\<rparr>,
      \<lparr>msg_timestamp = 1000000, msg_type = ''NMEA'',
        msg_data = [0x24, 0x47, 0x50, 0x47, 0x47, 0x41, 0x2C, 0x31, 0x0D, 0x0A]\<rparr>]"
  by (simp add: step_defs save_message_def data_entry_def decode_def)

section \<open>A binary frame between two sync patterns\<close>

lemma loop_body_plain:
  assumes "ser_read io = Returns [b]" and "\<not> stop_requested e io" and "queue s \<noteq> []"
    and "previous_data s = [p]" and "\<not> boundary [p, b]"
  shows "loop_body f e s io =
           Running (s\<lparr>null_cnt := 0, queue := queue s @ [b], previous_data := [b]\<rparr>)"
  using assms by (auto simp add: loop_body_def classify_def boundary_def NULL_CNT_def Let_def)

lemma has_boundary_Cons:
  "has_boundary (p # body) \<longleftrightarrow> (body \<noteq> [] \<and> boundary [p, hd body]) \<or> has_boundary body"
  by (cases body) simp_all

lemma feeds_Cons:
  assumes "feeds ios (b # bs)"
  obtains io ios' where "ios = io # ios'" and "ser_read io = Returns [b]" and "feeds ios' bs"
  using assms by (cases ios) (auto simp: feeds_def)

lemma read_loop_plain:
  assumes "feeds ios body" and "no_stop e ios" and "queue s \<noteq> []" and "previous_data s = [p]"
    and "\<not> has_boundary (p # body)"
  shows "\<exists>s'. read_loop f e s ios = Running s' \<and> queue s' = queue s @ body \<and>
           previous_data s' = [last (p # body)] \<and> messages s' = messages s \<and>
           ubx_flag s' = ubx_flag s \<and> ubx_timestamp s' = ubx_timestamp s"
  using assms
proof (induction body arbitrary: ios s p)
  case Nil
  then show ?case by (simp add: feeds_def)
next
  case (Cons b body)
  from Cons.prems(1) obtain io ios' where ios: "ios = io # ios'" and rd: "ser_read io = Returns [b]"
    and f: "feeds ios' body"
    by (rule feeds_Cons)
  from Cons.prems(2) ios have ns: "\<not> stop_requested e io" "no_stop e ios'"
    by (simp_all add: no_stop_def)
  from Cons.prems(5) have nb: "\<not> boundary [p, b]" and nb': "\<not> has_boundary (b # body)"
    by (simp_all add: has_boundary_Cons)
  let ?s1 = "s\<lparr>null_cnt := 0, queue := queue s @ [b], previous_data := [b]\<rparr>"
  have step: "loop_body f e s io = Running ?s1"
    using rd ns(1) Cons.prems(3,4) nb by (rule loop_body_plain)
  have "queue ?s1 \<noteq> []" and "previous_data ?s1 = [b]" by simp_all
  from Cons.IH [OF f ns(2) this nb'] obtain s' where
    "read_loop f e ?s1 ios' = Running s'" "queue s' = queue ?s1 @ body"
    "previous_data s' = [last (b # body)]" "messages s' = messages ?s1"
    "ubx_flag s' = ubx_flag ?s1" "ubx_timestamp s' = ubx_timestamp ?s1"
    by blast
  with step ios show ?case by simp
qed

lemma feeds_append:
  assumes "feeds ios (xs @ ys)"
  obtains ios1 ios2 where "ios = ios1 @ ios2" and "feeds ios1 xs" and "feeds ios2 ys"
  using assms by (auto simp: feeds_def map_eq_append_conv)

lemma no_stop_append: "no_stop e (xs @ ys) \<longleftrightarrow> no_stop e xs \<and> no_stop e ys"
  by (simp add: no_stop_def)

text \<open>
  Claim C3, as the code has it. From the start, the sync pattern, then the bytes \<open>body\<close>
  with no boundary window among them, then the sync pattern again, with no request to
  stop: the loop is still running, \<open>save_message\<close> has been called once, with the type
  "UBX", the timestamp of the first sync pattern and the payload made of the sync pattern
  followed by \<open>body\<close>, two bytes longer than \<open>body\<close>; and \<open>queue\<close> holds the second sync
  pattern, with the flag set for the second frame.
\<close>

theorem binary_frame_between_syncs:
  assumes "feeds ios ([0xB5, 0x62] @ body @ [0xB5, 0x62])" and "no_stop e ios"
    and "\<not> has_boundary body"
  shows "\<exists>s. read_loop f e init ios = Running s \<and>
           messages s = save_message [] ([0xB5, 0x62] @ body)
                          (time_stamp (ios ! 1) * 1000000 - f) ''UBX'' \<and>
           length ([0xB5, 0x62] @ body) = length body + 2 \<and>
           queue s = [0xB5, 0x62] \<and> ubx_flag s"
proof -
  from assms(1) obtain io1 io2 rest where ios: "ios = io1 # io2 # rest"
    and rd1: "ser_read io1 = Returns [0xB5]" and rd2: "ser_read io2 = Returns [0x62]"
    and fr: "feeds rest (body @ [0xB5, 0x62])"
    by (auto elim!: feeds_Cons)
  from fr obtain mid tl where rest: "rest = mid @ tl" and fm: "feeds mid body"
    and ft: "feeds tl [0xB5, 0x62]"
    by (rule feeds_append)
  from ft obtain io3 io4 where tl: "tl = [io3, io4]"
    and rd3: "ser_read io3 = Returns [0xB5]" and rd4: "ser_read io4 = Returns [0x62]"
    by (auto elim!: feeds_Cons simp: feeds_def)
  from assms(2) ios rest tl have ns: "\<not> stop_requested e io2" "no_stop e mid"
    "\<not> stop_requested e io3" "\<not> stop_requested e io4"
    by (simp_all add: no_stop_def)
  define u where "u = time_stamp io2 * 1000000"
  let ?s1 = "init\<lparr>null_cnt := 0, previous_data := [0xB5], queue := [0xB5]\<rparr>"
  let ?s2 = "?s1\<lparr>ubx_flag := True, ubx_timestamp := Some u, queue := [0xB5, 0x62],
                 previous_data := [0x62]\<rparr>"
  have step1: "loop_body f e init io1 = Running ?s1"
    using rd1 by (simp add: loop_body_def init_def NULL_CNT_def)
  have step2: "loop_body f e ?s1 io2 = Running ?s2"
    using rd2 ns(1) by (simp add: step_defs u_def)
  have "\<not> has_boundary (0x62 # body)"
    using assms(3) by (simp add: has_boundary_Cons boundary_def)
  with read_loop_plain [OF fm ns(2), of ?s2 "0x62" f]
  obtain s3 where run3: "read_loop f e ?s2 mid = Running s3"
    and q3: "queue s3 = [0xB5, 0x62] @ body"
    and p3: "previous_data s3 = [last (0x62 # body)]" and m3: "messages s3 = []"
    and f3: "ubx_flag s3" and u3: "ubx_timestamp s3 = Some u"
    by (auto simp: init_def)
  let ?s4 = "s3\<lparr>null_cnt := 0, queue := queue s3 @ [0xB5], previous_data := [0xB5]\<rparr>"
  have step4: "loop_body f e s3 io3 = Running ?s4"
    using rd3 ns(3) _ p3 by (rule loop_body_plain) (simp_all add: q3 boundary_def)
  define s5 where "s5 = final (loop_body f e ?s4 io4)"
  have step5: "loop_body f e ?s4 io4 = Running s5 \<and>
      messages s5 = save_message [] ([0xB5, 0x62] @ body) (u - f) ''UBX'' \<and>
      queue s5 = [0xB5, 0x62] \<and> ubx_flag s5"
    unfolding s5_def using rd4 ns(4) q3 m3 f3 u3
    by (simp add: loop_body_def classify_def close_pending_def sub_ts_def NULL_CNT_def Let_def)
  have "read_loop f e init ios = Running s5"
    using ios rest tl step1 step2 run3 step4 step5 by (simp add: read_loop_append)
  moreover have "time_stamp (ios ! 1) * 1000000 = u"
    using ios by (simp add: u_def)
  ultimately show ?thesis using step5 by simp
qed

theorem binary_frame_between_syncs_witness:
  "feeds (map (byte_read 1) [0xB5, 0x62, 1, 2, 0xB5, 0x62]) ([0xB5, 0x62] @ [1, 2] @ [0xB5, 0x62]) \<and>
   no_stop None (map (byte_read 1) [0xB5, 0x62, 1, 2, 0xB5, 0x62]) \<and>
   \<not> has_boundary [1, 2] \<and>
   (\<exists>s. read_loop 0 None init (map (byte_read 1) [0xB5, 0x62, 1, 2, 0xB5, 0x62]) = Running s \<and>
      messages s = save_message [] [0xB5, 0x62, 1, 2] 1000000 ''UBX'' \<and>
      queue s = [0xB5, 0x62] \<and> ubx_flag s)"
proof -
  have fd: "feeds (map (byte_read 1) [0xB5, 0x62, 1, 2, 0xB5, 0x62]) ([0xB5, 0x62] @ [1, 2] @ [0xB5, 0x62])"
    by (simp add: feeds_def byte_read_def)
  have ns: "no_stop None (map (byte_read 1) [0xB5, 0x62, 1, 2, 0xB5, 0x62])"
    by (simp add: no_stop_def stop_requested_def byte_read_def)
  have nb: "\<not> has_boundary [1, 2]"
    by (simp add: boundary_def)
  from binary_frame_between_syncs [OF fd ns nb, of 0] fd ns nb show ?thesis
    by (simp add: byte_read_def)
qed

text \<open>
  The claim as stated fails: the record holds the four bytes \<open>B5 62 01 02\<close>, and no
  record holds the two bytes between the sync patterns alone.
\<close>

theorem binary_frame_between_syncs_counterexample:
  "emitted_as ''UBX'' [0xB5, 0x62, 1, 2]
     (messages (final (read_loop 0 None init (map (byte_read 1) [0xB5, 0x62, 1, 2, 0xB5, 0x62])))) \<and>
   \<not> emitted_as ''UBX'' [1, 2]
     (messages (final (read_loop 0 None init (map (byte_read 1) [0xB5, 0x62, 1, 2, 0xB5, 0x62]))))"
  by (simp add: step_defs save_message_def data_entry_def emitted_as_def holds_def hex_def hex_digit_def)

section \<open>The loop of \<open>read_CAN_bus\<close>\<close>

lemma can_loop_append:
  "can_loop tr dm ids e ms (xs @ ys) =
     (case can_loop tr dm ids e ms xs of
        Running ms' \<Rightarrow> can_loop tr dm ids e ms' ys
      | Stopped r ms' \<Rightarrow> Stopped r ms')"
  by (induction xs arbitrary: ms) (auto split: outcome.splits)

lemma can_body_known:
  assumes "obj \<in> set (final (can_body tr dm ids e ms io))"
  shows "obj \<in> set ms \<or>
         (\<exists>m. recv io = Returns (Some m) \<and> arbitration_id m \<in> set ids \<and>
              obj_arbitration_id obj = arbitration_id m \<and> obj_timestamp obj = frame_timestamp m)"
  using assms
  by (auto simp: can_body_def Let_def split: io_result.splits option.splits if_splits sum.splits)

lemma can_loop_known:
  assumes "obj \<in> set (final (can_loop tr dm ids e ms ios))"
  shows "obj \<in> set ms \<or>
         (\<exists>io\<in>set ios. \<exists>m. recv io = Returns (Some m) \<and> arbitration_id m \<in> set ids \<and>
              obj_arbitration_id obj = arbitration_id m \<and> obj_timestamp obj = frame_timestamp m)"
  using assms
proof (induction ios arbitrary: ms)
  case Nil
  then show ?case by simp
next
  case (Cons io ios)
  show ?case
  proof (cases "can_body tr dm ids e ms io")
    case (Running ms')
    with Cons.prems have "obj \<in> set (final (can_loop tr dm ids e ms' ios))" by simp
    from Cons.IH [OF this] show ?thesis
    proof
      assume "obj \<in> set ms'"
      with Running have "obj \<in> set (final (can_body tr dm ids e ms io))" by simp
      from can_body_known [OF this] show ?thesis by auto
    next
      assume "\<exists>io\<in>set ios. \<exists>m. recv io = Returns (Some m) \<and> arbitration_id m \<in> set ids \<and>
              obj_arbitration_id obj = arbitration_id m \<and> obj_timestamp obj = frame_timestamp m"
      then show ?thesis by auto
    qed
  next
    case (Stopped r ms')
    with Cons.prems have "obj \<in> set (final (can_body tr dm ids e ms io))" by simp
    from can_body_known [OF this] show ?thesis by auto
  qed
qed

text \<open>
  Claim C9. A frame is received whose identifier is not among \<open>message_ids\<close>. Then no
  record of \<open>can_messages\<close>, at any point of the run and in the file, carries that
  identifier, whatever the payload of the frame: every record comes from a received
  frame whose identifier is listed, with the identifier and the timestamp of that frame.
\<close>

theorem unknown_identifier_filtered:
  assumes "io \<in> set ios" and "recv io = Returns (Some m)"
    and "arbitration_id m \<notin> set message_ids"
  shows "(\<forall>obj\<in>set (final (can_loop truthy decode_message message_ids end_time [] ios)).
            obj_arbitration_id obj \<noteq> arbitration_id m \<and>
            (\<exists>io'\<in>set ios. \<exists>m'. recv io' = Returns (Some m') \<and>
               arbitration_id m' \<in> set message_ids \<and>
               obj_arbitration_id obj = arbitration_id m' \<and>
               obj_timestamp obj = frame_timestamp m')) \<and>
         (\<forall>r written. read_CAN_bus truthy decode_message message_ids end_time ios
              = Some (r, Some written) \<longrightarrow>
            (\<forall>obj\<in>set written. obj_arbitration_id obj \<noteq> arbitration_id m))"
proof -
  let ?out = "can_loop truthy decode_message message_ids end_time [] ios"
  have a: "\<forall>obj\<in>set (final ?out). obj_arbitration_id obj \<noteq> arbitration_id m \<and>
            (\<exists>io'\<in>set ios. \<exists>m'. recv io' = Returns (Some m') \<and>
               arbitration_id m' \<in> set message_ids \<and>
               obj_arbitration_id obj = arbitration_id m' \<and>
               obj_timestamp obj = frame_timestamp m')"
  proof
    fix obj
    assume "obj \<in> set (final ?out)"
    from can_loop_known [OF this]
    have k: "\<exists>io'\<in>set ios. \<exists>m'. recv io' = Returns (Some m') \<and>
               arbitration_id m' \<in> set message_ids \<and>
               obj_arbitration_id obj = arbitration_id m' \<and>
               obj_timestamp obj = frame_timestamp m'"
      by simp
    then have "obj_arbitration_id obj \<in> set message_ids" by auto
    with assms(3) have "obj_arbitration_id obj \<noteq> arbitration_id m" by auto
    with k show "obj_arbitration_id obj \<noteq> arbitration_id m \<and>
            (\<exists>io'\<in>set ios. \<exists>m'. recv io' = Returns (Some m') \<and>
               arbitration_id m' \<in> set message_ids \<and>
               obj_arbitration_id obj = arbitration_id m' \<and>
               obj_timestamp obj = frame_timestamp m')"
      by simp
  qed
  have "written = final ?out"
    if "read_CAN_bus truthy decode_message message_ids end_time ios = Some (r, Some written)"
    for r written
    using that
    by (auto simp: read_CAN_bus_def write_to_file_def split: outcome.splits if_splits)
  with a show ?thesis by blast
qed

theorem unknown_identifier_filtered_witness:
  "read_CAN_bus (\<lambda>m. True) (\<lambda>i d. Inr [(''speed'', Raw (7::nat))]) [1] None
     [\<lparr>recv = Returns (Some \<lparr>arbitration_id = 2, frame_data = [0xFF], frame_timestamp = 1\<rparr>),
        can_time = 0, can_terminator = False\<rparr>,
      \<lparr>recv = Returns (Some \<lparr>arbitration_id = 1, frame_data = [0x01], frame_timestamp = 2\<rparr>),
        can_time = 0, can_terminator = True\<rparr>]
   = Some (Ended, Some [\<lparr>obj_timestamp = 2, obj_arbitration_id = 1, obj_data = [(''speed'', 7)]\<rparr>]) \<and>
   list_all (\<lambda>obj. obj_arbitration_id obj \<noteq> 2)
     [\<lparr>obj_timestamp = 2, obj_arbitration_id = 1, obj_data = [(''speed'', 7::nat)]\<rparr>]"
proof -
  let ?u = "\<lparr>recv = Returns (Some \<lparr>arbitration_id = 2, frame_data = [0xFF], frame_timestamp = 1\<rparr>),
        can_time = 0, can_terminator = False\<rparr>"
  let ?k = "\<lparr>recv = Returns (Some \<lparr>arbitration_id = 1, frame_data = [0x01], frame_timestamp = 2\<rparr>),
        can_time = 0, can_terminator = True\<rparr>"
  have run: "read_CAN_bus (\<lambda>m. True) (\<lambda>i d. Inr [(''speed'', Raw (7::nat))]) [1] None [?u, ?k]
     = Some (Ended, Some [\<lparr>obj_timestamp = 2, obj_arbitration_id = 1, obj_data = [(''speed'', 7)]\<rparr>])"
    by (simp add: read_CAN_bus_def can_body_def can_stop_def write_to_file_def)
  from unknown_identifier_filtered [of ?u "[?u, ?k]" "\<lparr>arbitration_id = 2, frame_data = [0xFF], frame_timestamp = 1\<rparr>" "[1]"
      "\<lambda>m. True" "\<lambda>i d. Inr [(''speed'', Raw (7::nat))]" None] run
  show ?thesis by simp
qed

text \<open>
  Claim C10. When \<open>recv\<close> returns \<open>None\<close> the pass raises \<open>AttributeError\<close> at line 99:
  the loop is left through the handler, and the \<open>finally\<close> block writes \<open>can_messages\<close>
  only if it is not empty. The \<open>break\<close> of line 113 is never reached by a \<open>None\<close>: a
  pass that takes it has received a frame with a listed identifier that counts as false.
\<close>

theorem recv_timeout_raises:
  assumes "can_loop truthy decode_message message_ids end_time [] pre = Running can_messages"
    and "recv io = Returns None"
  shows "can_loop truthy decode_message message_ids end_time [] (pre @ io # rest)
           = Stopped (Raised AttributeError) can_messages \<and>
         read_CAN_bus truthy decode_message message_ids end_time (pre @ io # rest)
           = Some (Raised AttributeError,
                   if length can_messages > 0 then Some can_messages else None) \<and>
         (\<forall>ms io' ms'. can_body truthy decode_message message_ids end_time ms io'
              = Stopped Expired ms' \<longrightarrow>
            (\<exists>m. recv io' = Returns (Some m) \<and> arbitration_id m \<in> set message_ids \<and>
                 \<not> truthy m))"
proof -
  have "can_body truthy decode_message message_ids end_time can_messages io
      = Stopped (Raised AttributeError) can_messages"
    using assms(2) by (simp add: can_body_def)
  with assms(1) have run: "can_loop truthy decode_message message_ids end_time [] (pre @ io # rest)
           = Stopped (Raised AttributeError) can_messages"
    by (simp add: can_loop_append)
  moreover have "\<exists>m. recv io' = Returns (Some m) \<and> arbitration_id m \<in> set message_ids \<and> \<not> truthy m"
    if "can_body truthy decode_message message_ids end_time ms io' = Stopped Expired ms'"
    for ms io' ms'
    using that
    by (auto simp: can_body_def Let_def split: io_result.splits option.splits if_splits sum.splits)
  ultimately show ?thesis
    by (simp add: read_CAN_bus_def write_to_file_def)
qed

theorem recv_timeout_raises_witness:
  "read_CAN_bus (\<lambda>m. True) (\<lambda>i d. Inr [(''speed'', Raw (7::nat))]) [1] None
     ([\<lparr>recv = Returns (Some \<lparr>arbitration_id = 1, frame_data = [0x01], frame_timestamp = 2\<rparr>),
        can_time = 0, can_terminator = False\<rparr>] @
      \<lparr>recv = Returns None, can_time = 0, can_terminator = False\<rparr> # [])
   = Some (Raised AttributeError,
       Some [\<lparr>obj_timestamp = 2, obj_arbitration_id = 1, obj_data = [(''speed'', 7)]\<rparr>]) \<and>
   read_CAN_bus (\<lambda>m. True) (\<lambda>i d. Inr [(''speed'', Raw (7::nat))]) [1] None
     ([] @ \<lparr>recv = Returns None, can_time = 0, can_terminator = False\<rparr> # [])
   = Some (Raised AttributeError, None)"
proof -
  let ?k = "\<lparr>recv = Returns (Some \<lparr>arbitration_id = 1, frame_data = [0x01], frame_timestamp = 2\<rparr>),
        can_time = 0, can_terminator = False\<rparr>"
  let ?t = "\<lparr>recv = Returns None, can_time = 0, can_terminator = False\<rparr>"
  have pre: "can_loop (\<lambda>m. True) (\<lambda>i d. Inr [(''speed'', Raw (7::nat))]) [1] None [] [?k]
      = Running [\<lparr>obj_timestamp = 2, obj_arbitration_id = 1, obj_data = [(''speed'', 7)]\<rparr>]"
    by (simp add: can_body_def can_stop_def)
  have pre0: "can_loop (\<lambda>m. True) (\<lambda>i d. Inr [(''speed'', Raw (7::nat))]) [1] None [] []
      = Running []"
    by simp
  have t: "recv ?t = Returns None" by simp
  from recv_timeout_raises [OF pre t, of "[]"] recv_timeout_raises [OF pre0 t, of "[]"]
  show ?thesis by simp
qed

end
